theory Spec2Isabelle
  imports Complex_Main "HOL-Library.Char_ord" "HOL-Library.List_Lexorder"
    "HOL-Library.Product_Lexorder"
begin

section \<open>Ground-contact pass analysis: embedding of run\_passes.py\<close>

text \<open>
  Conventions of the embedding.
  \<^item> A Python float is an exact rational (\<open>rat\<close>): the arithmetic of the source is
    modelled without binary rounding error.
  \<^item> A Skyfield \<open>Time\<close> is the UTC instant that \<open>utc_datetime()\<close> returns for it, in
    whole microseconds since 0001-01-01T00:00:00 (a \<open>datetime\<close> has no finer
    resolution).
  \<^item> An ISO string to the second (\<open>utc_iso()\<close>) is the instant it denotes, in whole
    seconds since the same origin; \<open>utc_iso\<close> rounds to the nearest second.
  \<^item> Strings are byte strings; names are compared and ordered bytewise.
  \<^item> An exception is the left summand of a result type.
\<close>

subsection \<open>Errors\<close>

datatype error =
    IndexError
  | KeyError string
  | ValueError
  | OverflowError
  | AttributeError
  | RuntimeError string

subsection \<open>Time and link utilities\<close>

type_synonym time = int

text \<open>\<open>timedelta.total_seconds()\<close> of a difference of two instants.\<close>

definition total_seconds :: "int \<Rightarrow> rat" where
  "total_seconds us = of_int us / 1000000"

text \<open>
  \<open>round(x, nd)\<close> of Python: to \<open>nd\<close> decimals, a tie going to the even neighbour.
\<close>

definition round_half_even :: "rat \<Rightarrow> int" where
  "round_half_even y =
     (let f = \<lfloor>y\<rfloor>; d = y - of_int f
      in if d < 1 / 2 then f
         else if 1 / 2 < d then f + 1
         else if even f then f else f + 1)"

definition py_round :: "rat \<Rightarrow> nat \<Rightarrow> rat" where
  "py_round x nd = of_int (round_half_even (x * 10 ^ nd)) / 10 ^ nd"

text \<open>\<open>mb_from_mbps\<close>, lines 15-16.\<close>

definition mb_from_mbps :: "rat \<Rightarrow> rat \<Rightarrow> rat \<Rightarrow> rat" where
  "mb_from_mbps mbps seconds eff = (mbps * 1000000 / 8) * seconds * eff / 1000000"

text \<open>\<open>Time.utc_iso()\<close>: the instant to the nearest second.\<close>

definition utc_iso :: "time \<Rightarrow> int" where
  "utc_iso t = (t + 500000) div 1000000"

subsection \<open>Catalog rows\<close>

record row =
  satellite :: "string option"
  station :: string
  mask_deg :: rat
  aos_utc :: int
  los_utc :: int
  duration_s :: rat
  max_elev_deg :: rat
  downlink_mbps :: rat
  efficiency :: rat
  data_mb_est :: rat

text \<open>
  What the scan of one satellite/station pair reads from its surroundings: the name of
  the satellite (\<open>None\<close> is Python's \<open>None\<close>), the station's name and mask, the link
  parameters, the minimum duration, and the topocentric altitude in degrees at an
  instant (\<open>(sat.at(t) - station.at(t)).altaz()\<close>, computed by Skyfield).
\<close>

record scan_env =
  env_sat_name :: "string option"
  env_station :: string
  env_mask :: rat
  env_downlink :: rat
  env_efficiency :: rat
  env_min_dur :: rat
  env_altitude :: "time \<Rightarrow> rat"

text \<open>The dictionary appended at lines 85-96.\<close>

definition mk_row :: "scan_env \<Rightarrow> time \<Rightarrow> time \<Rightarrow> time \<Rightarrow> row" where
  "mk_row e t_rise t_culm t_set =
     (let dur_s = total_seconds (t_set - t_rise);
          max_elev = env_altitude e t_culm;
          data_mb = mb_from_mbps (env_downlink e) dur_s (env_efficiency e)
      in \<lparr> satellite = env_sat_name e,
           station = env_station e,
           mask_deg = env_mask e,
           aos_utc = utc_iso t_rise,
           los_utc = utc_iso t_set,
           duration_s = py_round dur_s 1,
           max_elev_deg = py_round max_elev 2,
           downlink_mbps = env_downlink e,
           efficiency = env_efficiency e,
           data_mb_est = py_round data_mb 2 \<rparr>)"

subsection \<open>The event scan, lines 66-99\<close>

text \<open>Indexing a sequence at a non-negative index: out of range raises.\<close>

definition getitem :: "'a list \<Rightarrow> nat \<Rightarrow> error + 'a" where
  "getitem xs i = (if i < length xs then Inr (xs ! i) else Inl IndexError)"

text \<open>The loop condition \<open>i < len(events) - 2\<close>, over Python's integers.\<close>

definition loop_cond :: "int list \<Rightarrow> nat \<Rightarrow> bool" where
  "loop_cond events i \<longleftrightarrow> int i < int (length events) - 2"

text \<open>
  The test of line 68 (event codes: 0 rise, 1 culmination, 2 set). It is evaluated
  under the loop condition only, where the three indices are in range.
\<close>

definition is_triple :: "int list \<Rightarrow> nat \<Rightarrow> bool" where
  "is_triple events i \<longleftrightarrow>
     events ! i = 0 \<and> events ! (i + 1) = 1 \<and> events ! (i + 2) = 2"

text \<open>One iteration of the loop body, on the cursor and the rows collected so far.\<close>

definition scan_step ::
  "scan_env \<Rightarrow> time list \<Rightarrow> int list \<Rightarrow> nat \<times> row list \<Rightarrow> error + (nat \<times> row list)" where
  "scan_step e tms events st =
     (case st of (i, rows) \<Rightarrow>
        if is_triple events i then
          (case getitem tms i of
             Inl x \<Rightarrow> Inl x
           | Inr t_rise \<Rightarrow>
              (case getitem tms (i + 1) of
                 Inl x \<Rightarrow> Inl x
               | Inr t_culm \<Rightarrow>
                  (case getitem tms (i + 2) of
                     Inl x \<Rightarrow> Inl x
                   | Inr t_set \<Rightarrow>
                       if total_seconds (t_set - t_rise) < env_min_dur e
                       then Inr (i + 3, rows)
                       else Inr (i + 3, rows @ [mk_row e t_rise t_culm t_set]))))
        else Inr (i + 1, rows))"

function scan_loop ::
  "scan_env \<Rightarrow> time list \<Rightarrow> int list \<Rightarrow> nat \<Rightarrow> row list \<Rightarrow> error + row list" where
  "scan_loop e tms events i rows =
     (if loop_cond events i then
        (case scan_step e tms events (i, rows) of
           Inl x \<Rightarrow> Inl x
         | Inr (i', rows') \<Rightarrow> scan_loop e tms events i' rows')
      else Inr rows)"
  by pat_completeness auto
termination
proof (relation "measure (\<lambda>(e, tms, events, i, rows). length events - i)")
  show "wf (measure (\<lambda>(e, tms, events, i, rows). length events - i))"
    by simp
next
  fix e :: scan_env and tms :: "time list" and events :: "int list"
    and i :: nat and rows :: "row list" and x2 :: "nat \<times> row list"
    and i' :: nat and rows' :: "row list"
  assume c: "loop_cond events i"
    and s: "scan_step e tms events (i, rows) = Inr x2"
    and x: "(i', rows') = x2"
  from s x have "i' = i + 1 \<or> i' = i + 3"
    by (auto simp: scan_step_def split: if_splits sum.splits)
  with c show "((e, tms, events, i', rows'), (e, tms, events, i, rows))
      \<in> measure (\<lambda>(e, tms, events, i, rows). length events - i)"
    by (auto simp: loop_cond_def)
qed

declare scan_loop.simps [simp del]

text \<open>The scan of one pair: the cursor starts at 0, on the rows collected so far.\<close>

definition scan_events ::
  "scan_env \<Rightarrow> time list \<Rightarrow> int list \<Rightarrow> row list \<Rightarrow> error + row list" where
  "scan_events e tms events rows = scan_loop e tms events 0 rows"

subsection \<open>Parsing the time window, lines 10-13\<close>

text \<open>
  A \<open>datetime\<close>: its wall-clock reading in microseconds since 0001-01-01T00:00:00, and
  its UTC offset in microseconds (\<open>None\<close> for a naive value). Instants are counted from
  the same origin.
\<close>

record datetime =
  dt_wall :: int
  dt_offset :: "int option"

text \<open>The last representable reading, 9999-12-31T23:59:59.999999.\<close>

definition dt_max :: int where
  "dt_max = 3652059 * 86400 * 1000000 - 1"

text \<open>
  The standard library, as far as \<open>parse_utc\<close> uses it: \<open>datetime.fromisoformat\<close>
  (raising \<open>ValueError\<close> on text that is not a date-time) and the UTC offset of the
  system's local zone at a wall-clock reading, which \<open>astimezone\<close> applies to a naive
  value.
\<close>

record stdlib =
  fromisoformat :: "string \<Rightarrow> error + datetime"
  local_offset :: "int \<Rightarrow> int"

text \<open>\<open>dt.astimezone(timezone.utc)\<close>; a reading outside years 1 to 9999 raises.\<close>

definition astimezone_utc :: "stdlib \<Rightarrow> datetime \<Rightarrow> error + datetime" where
  "astimezone_utc lib d =
     (let off = (case dt_offset d of None \<Rightarrow> local_offset lib (dt_wall d) | Some x \<Rightarrow> x);
          u = dt_wall d - off
      in if 0 \<le> u \<and> u \<le> dt_max
         then Inr \<lparr> dt_wall = u, dt_offset = Some 0 \<rparr>
         else Inl OverflowError)"

definition endswith_Z :: "string \<Rightarrow> bool" where
  "endswith_Z ts \<longleftrightarrow> ts \<noteq> [] \<and> last ts = CHR ''Z''"

definition parse_utc :: "stdlib \<Rightarrow> string \<Rightarrow> error + datetime" where
  "parse_utc lib ts =
     (let ts' = (if endswith_Z ts then butlast ts @ ''+00:00'' else ts)
      in case fromisoformat lib ts' of
           Inl x \<Rightarrow> Inl x
         | Inr d \<Rightarrow> astimezone_utc lib d)"

subsection \<open>Resolving a satellite, lines 22-40\<close>

text \<open>
  An \<open>EarthSatellite\<close>: its name (\<open>None\<close> when the element set came without a name
  line) and its two element lines.
\<close>

record entity =
  ent_name :: "string option"
  ent_line1 :: string
  ent_line2 :: string

text \<open>One entry of the configured satellites; an absent key is \<open>None\<close>.\<close>

record sat_cfg =
  cfg_name :: "string option"
  tle_url :: "string option"
  tle1 :: "string option"
  tle2 :: "string option"

text \<open>
  \<open>str.strip()\<close>: the whitespace of Python among the characters below 128 is
  tab, line feed, vertical tab, form feed, carriage return (9 to 13), the separators
  28 to 31, and the space (32).
\<close>

definition is_space :: "char \<Rightarrow> bool" where
  "is_space c \<longleftrightarrow>
     (let n = (of_char c :: nat) in (9 \<le> n \<and> n \<le> 13) \<or> (28 \<le> n \<and> n \<le> 32))"

definition strip :: "string \<Rightarrow> string" where
  "strip s = rev (dropWhile is_space (rev (dropWhile is_space s)))"

text \<open>
  The loop of lines 34-37 over the entities, with the fallback after it.
  \<open>s.name.strip()\<close> on an entity without a name raises \<open>AttributeError\<close>.
\<close>

fun find_named :: "string \<Rightarrow> entity list \<Rightarrow> entity \<Rightarrow> error + entity" where
  "find_named target [] fallback = Inr fallback"
| "find_named target (s # ss) fallback =
     (case ent_name s of
        None \<Rightarrow> Inl AttributeError
      | Some n \<Rightarrow> if strip n = target then Inr s else find_named target ss fallback)"

text \<open>Line 33: the configured name, stripped; the empty string when there is none.\<close>

definition target_name :: "sat_cfg \<Rightarrow> string" where
  "target_name sc = strip (case cfg_name sc of Some n \<Rightarrow> n | None \<Rightarrow> [])"

text \<open>
  \<open>make_satellite\<close>; \<open>tle_file\<close> is what \<open>load.tle_file\<close> returns for a URL (Skyfield,
  over the network).
\<close>

definition make_satellite :: "(string \<Rightarrow> entity list) \<Rightarrow> sat_cfg \<Rightarrow> error + entity" where
  "make_satellite tle_file sc =
     (case tle_url sc of
        Some url \<Rightarrow>
          (let sats = tle_file url
           in if sats = [] then Inl (RuntimeError ''No satellites returned from tle_url'')
              else if length sats = 1 then
                Inr ((sats ! 0)\<lparr> ent_name :=
                       (case cfg_name sc of Some n \<Rightarrow> Some n | None \<Rightarrow> ent_name (sats ! 0)) \<rparr>)
              else
                find_named (target_name sc) sats (sats ! 0))
      | None \<Rightarrow>
          (case tle1 sc of
             None \<Rightarrow> Inl (KeyError ''tle1'')
           | Some l1 \<Rightarrow>
              (case tle2 sc of
                 None \<Rightarrow> Inl (KeyError ''tle2'')
               | Some l2 \<Rightarrow>
                  (case cfg_name sc of
                     None \<Rightarrow> Inl (KeyError ''name'')
                   | Some n \<Rightarrow>
                       Inr \<lparr> ent_name = Some n, ent_line1 = l1, ent_line2 = l2 \<rparr>))))"

subsection \<open>Building the catalog, lines 42-107\<close>

text \<open>One entry of the configured ground stations; the mask is optional.\<close>

record gs_cfg =
  gs_name :: string
  lat_deg :: rat
  lon_deg :: rat
  alt_m :: rat
  gs_mask_deg :: "rat option"

text \<open>The configuration; the minimum pass duration is optional.\<close>

record cfg =
  start_utc :: string
  end_utc :: string
  link_downlink_mbps :: rat
  link_efficiency :: rat
  min_pass_duration_s :: "rat option"
  satellites :: "sat_cfg list"
  ground_stations :: "gs_cfg list"

text \<open>
  Skyfield, as far as the catalog builder uses it: the entities of a URL, the events of
  a satellite over a station in a window above a mask (the instants and the event
  codes, two arrays), and the altitude of the satellite over the station at an instant.
\<close>

record skyfield =
  tle_file :: "string \<Rightarrow> entity list"
  find_events :: "entity \<Rightarrow> gs_cfg \<Rightarrow> time \<Rightarrow> time \<Rightarrow> rat \<Rightarrow> time list \<times> int list"
  altitude :: "entity \<Rightarrow> gs_cfg \<Rightarrow> time \<Rightarrow> rat"

text \<open>The values computed before the loops, lines 45-52.\<close>

record run =
  run_t0 :: time
  run_t1 :: time
  run_downlink :: rat
  run_efficiency :: rat
  run_min_dur :: rat

definition mask_of :: "gs_cfg \<Rightarrow> rat" where
  "mask_of gs = (case gs_mask_deg gs of None \<Rightarrow> 0 | Some m \<Rightarrow> m)"

definition pair_env :: "skyfield \<Rightarrow> run \<Rightarrow> entity \<Rightarrow> gs_cfg \<Rightarrow> scan_env" where
  "pair_env sky p sat gs =
     \<lparr> env_sat_name = ent_name sat,
       env_station = gs_name gs,
       env_mask = mask_of gs,
       env_downlink = run_downlink p,
       env_efficiency = run_efficiency p,
       env_min_dur = run_min_dur p,
       env_altitude = altitude sky sat gs \<rparr>"

text \<open>The inner loop over the ground stations, lines 59-99.\<close>

fun station_loop ::
  "skyfield \<Rightarrow> run \<Rightarrow> entity \<Rightarrow> gs_cfg list \<Rightarrow> row list \<Rightarrow> error + row list" where
  "station_loop sky p sat [] rows = Inr rows"
| "station_loop sky p sat (gs # gss) rows =
     (case find_events sky sat gs (run_t0 p) (run_t1 p) (mask_of gs) of
        (tms, events) \<Rightarrow>
          (case scan_events (pair_env sky p sat gs) tms events rows of
             Inl x \<Rightarrow> Inl x
           | Inr rows' \<Rightarrow> station_loop sky p sat gss rows'))"

text \<open>The outer loop over the satellites, lines 56-99.\<close>

fun satellite_loop ::
  "skyfield \<Rightarrow> run \<Rightarrow> sat_cfg list \<Rightarrow> gs_cfg list \<Rightarrow> row list \<Rightarrow> error + row list" where
  "satellite_loop sky p [] gss rows = Inr rows"
| "satellite_loop sky p (sc # scs) gss rows =
     (case make_satellite (tle_file sky) sc of
        Inl x \<Rightarrow> Inl x
      | Inr sat \<Rightarrow>
         (case station_loop sky p sat gss rows of
            Inl x \<Rightarrow> Inl x
          | Inr rows' \<Rightarrow> satellite_loop sky p scs gss rows'))"

text \<open>Line 52: the configured minimum duration, 0 when there is none.\<close>

definition min_dur_s :: "cfg \<Rightarrow> rat" where
  "min_dur_s c = (case min_pass_duration_s c of None \<Rightarrow> 0 | Some m \<Rightarrow> m)"

text \<open>
  \<open>compute_passes\<close>: the rows of the frame it returns. The frame of no rows has no
  columns; any other frame has the column \<open>date_utc\<close> besides the fields of the rows.
\<close>

definition compute_passes :: "stdlib \<Rightarrow> skyfield \<Rightarrow> cfg \<Rightarrow> error + row list" where
  "compute_passes lib sky c =
     (case parse_utc lib (start_utc c) of
        Inl x \<Rightarrow> Inl x
      | Inr t0_dt \<Rightarrow>
         (case parse_utc lib (end_utc c) of
            Inl x \<Rightarrow> Inl x
          | Inr t1_dt \<Rightarrow>
              satellite_loop sky
                \<lparr> run_t0 = dt_wall t0_dt,
                  run_t1 = dt_wall t1_dt,
                  run_downlink = link_downlink_mbps c,
                  run_efficiency = link_efficiency c,
                  run_min_dur = min_dur_s c \<rparr>
                (satellites c) (ground_stations c) []))"


subsection \<open>Aggregation, lines 115-126\<close>

text \<open>
  \<open>groupby(keys).agg(sum, sum, sum)\<close> on a list of keyed measures: each item is added
  to the group of its key, a new group being opened at the end for a new key, and the
  groups are returned in the order of their keys.
\<close>

type_synonym measures = "rat \<times> rat \<times> nat"

definition add_measures :: "measures \<Rightarrow> measures \<Rightarrow> measures" where
  "add_measures a b =
     (case a of (c, d, n) \<Rightarrow> case b of (c', d', n') \<Rightarrow> (c + c', d + d', n + n'))"










subsection \<open>Auxiliary functions for the verification\<close>

text \<open>
  The cursor positions at which the scan appends a row: the control flow of the loop,
  without its rows.
\<close>

function emitted_at :: "scan_env \<Rightarrow> time list \<Rightarrow> int list \<Rightarrow> nat \<Rightarrow> nat list" where
  "emitted_at e tms events i =
     (if loop_cond events i then
        (if is_triple events i then
           (if total_seconds (tms ! (i + 2) - tms ! i) < env_min_dur e
            then emitted_at e tms events (i + 3)
            else i # emitted_at e tms events (i + 3))
         else emitted_at e tms events (i + 1))
      else [])"
  by pat_completeness auto
termination
  by (relation "measure (\<lambda>(e, tms, events, i). length events - i)")
    (auto simp: loop_cond_def)

declare emitted_at.simps [simp del]

text \<open>The row built from the triple at a position.\<close>

definition row_at :: "scan_env \<Rightarrow> time list \<Rightarrow> nat \<Rightarrow> row" where
  "row_at e tms j = mk_row e (tms ! j) (tms ! (j + 1)) (tms ! (j + 2))"

text \<open>
  The loop run for at most \<open>n\<close> iterations: \<open>None\<close> when it has not left the loop by
  then.
\<close>

fun scan_fuel ::
  "nat \<Rightarrow> scan_env \<Rightarrow> time list \<Rightarrow> int list \<Rightarrow> nat \<Rightarrow> row list \<Rightarrow> (error + row list) option" where
  "scan_fuel 0 e tms events i rows = None"
| "scan_fuel (Suc n) e tms events i rows =
     (if loop_cond events i then
        (case scan_step e tms events (i, rows) of
           Inl x \<Rightarrow> Some (Inl x)
         | Inr (i', rows') \<Rightarrow> scan_fuel n e tms events i' rows')
      else Some (Inr rows))"

text \<open>A concrete pair for the worked examples: 10 Mbps at efficiency 0.8, no filter.\<close>

definition demo_env :: scan_env where
  "demo_env =
     \<lparr> env_sat_name = Some ''SAT-1'', env_station = ''GS-1'', env_mask = 0,
       env_downlink = 10, env_efficiency = 4 / 5, env_min_dur = 0,
       env_altitude = (\<lambda>t. 45) \<rparr>"

text \<open>
  A concrete run for the worked examples: a window of one day, one satellite given by
  its element lines, one station, and one pass of \<open>d\<close> microseconds starting one hour
  into the window, the minimum duration being \<open>m\<close>.
\<close>

definition demo_lib :: stdlib where
  "demo_lib =
     \<lparr> fromisoformat =
         (\<lambda>s. if s = ''2024-01-01T00:00:00+00:00''
              then Inr \<lparr> dt_wall = 63839664000000000, dt_offset = Some 0 \<rparr>
              else if s = ''2024-01-02T00:00:00+00:00''
              then Inr \<lparr> dt_wall = 63839750400000000, dt_offset = Some 0 \<rparr>
              else Inl ValueError),
       local_offset = (\<lambda>w. 0) \<rparr>"

definition demo_sky :: "int \<Rightarrow> skyfield" where
  "demo_sky d =
     \<lparr> tle_file = (\<lambda>url. []),
       find_events =
         (\<lambda>sat gs t0 t1 mask. ([t0 + 3600000000, t0 + 3600000000 + d div 2, t0 + 3600000000 + d],
                                [0, 1, 2])),
       altitude = (\<lambda>sat gs t. 45) \<rparr>"

definition demo_cfg :: "rat option \<Rightarrow> cfg" where
  "demo_cfg m =
     \<lparr> start_utc = ''2024-01-01T00:00:00Z'',
       end_utc = ''2024-01-02T00:00:00Z'',
       link_downlink_mbps = 10,
       link_efficiency = 4 / 5,
       min_pass_duration_s = m,
       satellites =
         [\<lparr> cfg_name = Some ''SAT-1'', tle_url = None,
            tle1 = Some ''1 00001U'', tle2 = Some ''2 00001'' \<rparr>],
       ground_stations =
         [\<lparr> gs_name = ''GS-1'', lat_deg = 52, lon_deg = 13, alt_m = 34,
            gs_mask_deg = Some 10 \<rparr>] \<rparr>"



text \<open>Componentwise sum of a list of measures.\<close>

definition sum_measures :: "measures list \<Rightarrow> measures" where
  "sum_measures ms =
     (sum_list (map fst ms), sum_list (map (\<lambda>m. fst (snd m)) ms),
      sum_list (map (\<lambda>m. snd (snd m)) ms))"














section \<open>Properties of the event scan\<close>

subsection \<open>Helper lemmas\<close>

lemma scan_step_cursor:
  assumes "scan_step e tms events (i, rows) = Inr (i', rows')"
  shows "i' = i + 1 \<or> i' = i + 3"
  using assms
  by (auto simp: scan_step_def split: if_splits sum.splits)

lemma getitem_in_range: "i < length xs \<Longrightarrow> getitem xs i = Inr (xs ! i)"
  by (simp add: getitem_def)

lemma loop_cond_iff: "loop_cond events i \<longleftrightarrow> i + 2 < length events"
  by (auto simp: loop_cond_def)

lemma scan_step_in_range:
  assumes "length tms = length events" and "loop_cond events i"
  shows "scan_step e tms events (i, rows) =
     Inr (if is_triple events i
          then (i + 3,
                if total_seconds (tms ! (i + 2) - tms ! i) < env_min_dur e then rows
                else rows @ [mk_row e (tms ! i) (tms ! (i + 1)) (tms ! (i + 2))])
          else (i + 1, rows))"
  using assms by (simp add: scan_step_def getitem_in_range loop_cond_iff)

lemma scan_loop_stop: "\<not> loop_cond events i \<Longrightarrow> scan_loop e tms events i rows = Inr rows"
  by (simp add: scan_loop.simps)

lemma scan_loop_returns:
  assumes "length tms = length events"
  shows "\<exists>rows'. scan_loop e tms events i rows = Inr rows'"
  using assms
proof (induction e tms events i rows rule: scan_loop.induct)
  case (1 e tms events i rows)
  show ?case
  proof (cases "loop_cond events i")
    case False
    then show ?thesis by (simp add: scan_loop_stop)
  next
    case True
    obtain i' rows' where st: "scan_step e tms events (i, rows) = Inr (i', rows')"
      using scan_step_in_range [OF "1.prems" True, of e rows] by (cases "is_triple events i") auto
    from "1.IH" [OF True st refl "1.prems"] obtain r where "scan_loop e tms events i' rows' = Inr r" by blast
    with True st show ?thesis by (subst scan_loop.simps) simp
  qed
qed

lemma scan_loop_unfold:
  assumes "length tms = length events"
  shows "scan_loop e tms events i rows =
     (if loop_cond events i then
        (if is_triple events i then
           scan_loop e tms events (i + 3)
             (if total_seconds (tms ! (i + 2) - tms ! i) < env_min_dur e then rows
              else rows @ [row_at e tms i])
         else scan_loop e tms events (i + 1) rows)
      else Inr rows)"
proof (cases "loop_cond events i")
  case False
  then show ?thesis by (simp add: scan_loop_stop)
next
  case True
  show ?thesis
    by (subst scan_loop.simps)
      (simp add: True scan_step_in_range [OF assms True] row_at_def)
qed

lemma scan_loop_emitted:
  assumes "length tms = length events"
  shows "scan_loop e tms events i rows = Inr (rows @ map (row_at e tms) (emitted_at e tms events i))"
  using assms
proof (induction e tms events i arbitrary: rows rule: emitted_at.induct)
  case (1 e tms events i)
  show ?case
    using "1.IH" "1.prems"
    by (subst scan_loop_unfold [OF "1.prems"], subst emitted_at.simps) simp
qed

lemma emitted_at_lower: "p \<in> set (emitted_at e tms events i) \<Longrightarrow> i \<le> p \<and> p + 2 < length events"
proof (induction e tms events i rule: emitted_at.induct)
  case (1 e tms events i)
  show ?case
  proof (cases "loop_cond events i")
    case False
    with "1.prems" show ?thesis by (subst (asm) emitted_at.simps) simp
  next
    case lc: True
    show ?thesis
    proof (cases "is_triple events i")
      case False
      with lc "1.prems" have "p \<in> set (emitted_at e tms events (i + 1))"
        by (subst (asm) emitted_at.simps) simp
      from "1.IH"(3) [OF lc False this] show ?thesis by simp
    next
      case tr: True
      show ?thesis
      proof (cases "total_seconds (tms ! (i + 2) - tms ! i) < env_min_dur e")
        case True
        with lc tr "1.prems" have "p \<in> set (emitted_at e tms events (i + 3))"
          by (subst (asm) emitted_at.simps) simp
        from "1.IH"(1) [OF lc tr True this] show ?thesis by simp
      next
        case False
        with lc tr "1.prems" have "p = i \<or> p \<in> set (emitted_at e tms events (i + 3))"
          by (subst (asm) emitted_at.simps) simp
        then show ?thesis
        proof
          assume "p = i"
          with lc show ?thesis by (simp add: loop_cond_iff)
        next
          assume "p \<in> set (emitted_at e tms events (i + 3))"
          from "1.IH"(2) [OF lc tr False this] show ?thesis by simp
        qed
      qed
    qed
  qed
qed

lemma emitted_at_gaps: "sorted_wrt (\<lambda>a b. a + 3 \<le> b) (emitted_at e tms events i)"
proof (induction e tms events i rule: emitted_at.induct)
  case (1 e tms events i)
  show ?case
    using "1.IH"
    by (subst emitted_at.simps) (auto dest: emitted_at_lower)
qed

lemma scan_fuel_enough:
  "length events - i < n \<Longrightarrow> scan_fuel n e tms events i rows = Some (scan_loop e tms events i rows)"
proof (induction n arbitrary: i rows)
  case 0
  then show ?case by simp
next
  case (Suc n)
  show ?case
  proof (cases "loop_cond events i")
    case False
    then show ?thesis by (simp add: scan_loop_stop)
  next
    case True
    show ?thesis
    proof (cases "scan_step e tms events (i, rows)")
      case (Inl x)
      with True show ?thesis by (subst scan_loop.simps) simp
    next
      case (Inr st)
      obtain i' rows' where st: "st = (i', rows')" by (cases st)
      from Inr st have "i' = i + 1 \<or> i' = i + 3" using scan_step_cursor by blast
      with True Suc.prems have "length events - i' < n" by (auto simp: loop_cond_iff)
      from Suc.IH [OF this] Inr st True show ?thesis by (subst scan_loop.simps) simp
    qed
  qed
qed

lemma emitted_at_no_set:
  assumes "\<And>j. i + 2 \<le> j \<Longrightarrow> j < length events \<Longrightarrow> events ! j \<noteq> 2"
  shows "emitted_at e tms events i = []"
  using assms
proof (induction e tms events i rule: emitted_at.induct)
  case (1 e tms events i)
  show ?case
  proof (cases "loop_cond events i")
    case False
    then show ?thesis by (subst emitted_at.simps) simp
  next
    case lc: True
    then have "events ! (i + 2) \<noteq> 2"
      using "1.prems" [of "i + 2"] by (simp add: loop_cond_iff)
    then have nt: "\<not> is_triple events i" by (simp add: is_triple_def)
    have "emitted_at e tms events (i + 1) = []"
      using "1.IH"(3) [OF lc nt] "1.prems" by simp
    with lc nt show ?thesis by (subst emitted_at.simps) simp
  qed
qed

lemma emitted_at_append:
  assumes "length tms = length events" and "2 \<notin> set tail"
  shows "emitted_at e (tms @ ttail) (events @ tail) i = emitted_at e tms events i"
  using assms
proof (induction e tms events i rule: emitted_at.induct)
  case (1 e tms events i)
  show ?case
  proof (cases "loop_cond events i")
    case False
    have "emitted_at e (tms @ ttail) (events @ tail) i = []"
    proof (rule emitted_at_no_set)
      fix j assume "i + 2 \<le> j" and "j < length (events @ tail)"
      with False have "j - length events < length tail" and "length events \<le> j"
        by (auto simp: loop_cond_iff)
      then have "(events @ tail) ! j \<in> set tail"
        by (simp add: nth_append)
      with "1.prems" show "(events @ tail) ! j \<noteq> 2" by auto
    qed
    moreover from False have "emitted_at e tms events i = []"
      by (subst emitted_at.simps) simp
    ultimately show ?thesis by simp
  next
    case lc: True
    then have in_range: "i + 2 < length events" by (simp add: loop_cond_iff)
    then have lc': "loop_cond (events @ tail) i" by (simp add: loop_cond_iff)
    have tr: "is_triple (events @ tail) i = is_triple events i"
      using in_range by (simp add: is_triple_def nth_append)
    have tm: "(tms @ ttail) ! (i + 2) = tms ! (i + 2)" "(tms @ ttail) ! i = tms ! i"
      using in_range "1.prems"(1) by (simp_all add: nth_append)
    show ?thesis
    proof (cases "is_triple events i")
      case False
      from "1.IH"(3) [OF lc False "1.prems"] lc lc' tr False show ?thesis
        by (subst emitted_at.simps, subst (2) emitted_at.simps) simp
    next
      case t: True
      show ?thesis
      proof (cases "total_seconds (tms ! (i + 2) - tms ! i) < env_min_dur e")
        case True
        from "1.IH"(1) [OF lc t True "1.prems"] lc lc' tr t True tm show ?thesis
          by (subst emitted_at.simps, subst (2) emitted_at.simps) simp
      next
        case False
        from "1.IH"(2) [OF lc t False "1.prems"] lc lc' tr t False tm show ?thesis
          by (subst emitted_at.simps, subst (2) emitted_at.simps) simp
      qed
    qed
  qed
qed

lemma row_at_append:
  "j + 2 < length tms \<Longrightarrow> row_at e (tms @ ttail) j = row_at e tms j"
  by (simp add: row_at_def nth_append)

lemma scan_loop_append:
  assumes "length tms = length events" and "length ttail = length tail" and "2 \<notin> set tail"
  shows "scan_loop e (tms @ ttail) (events @ tail) i rows = scan_loop e tms events i rows"
proof -
  have "map (row_at e (tms @ ttail)) (emitted_at e tms events i)
      = map (row_at e tms) (emitted_at e tms events i)"
    using emitted_at_lower [of _ e tms events i] assms(1)
    by (auto intro!: row_at_append)
  then show ?thesis
    using assms
    by (simp add: scan_loop_emitted emitted_at_append)
qed

text \<open>
  Claim C7. The loop runs exactly while at least three events remain from the cursor
  on; with fewer it returns the rows collected so far, so a sequence of 0, 1 or 2
  events yields no row. A trailing fragment without a set event, such as a final rise
  or a final rise and culmination, changes nothing: the scan of the sequence with the
  fragment returns what the scan without it returns.
\<close>

theorem trailing_fragment_dropped:
  assumes "length tms = length events" and "length ttail = length tail" and "2 \<notin> set tail"
  shows "(loop_cond events i \<longleftrightarrow> 3 \<le> int (length events) - int i)
    \<and> (int (length events) - int i < 3 \<longrightarrow> scan_loop e tms events i rows = Inr rows)
    \<and> (length events < 3 \<longrightarrow> scan_events e tms events [] = Inr [])
    \<and> scan_events e (tms @ ttail) (events @ tail) rows = scan_events e tms events rows"
proof -
  have a: "loop_cond events i \<longleftrightarrow> 3 \<le> int (length events) - int i"
    by (auto simp: loop_cond_def)
  have b: "int (length events) - int i < 3 \<longrightarrow> scan_loop e tms events i rows = Inr rows"
    by (auto simp: loop_cond_def intro: scan_loop_stop)
  have c: "length events < 3 \<longrightarrow> scan_events e tms events [] = Inr []"
    by (auto simp: scan_events_def loop_cond_def intro: scan_loop_stop)
  have d: "scan_events e (tms @ ttail) (events @ tail) rows = scan_events e tms events rows"
    using assms by (simp add: scan_events_def scan_loop_append)
  from a b c d show ?thesis by blast
qed

theorem trailing_fragment_dropped_witness:
  "length [0, 300000000 :: int] = length [0, 1 :: int]
   \<and> length [600000000 :: int] = length [0 :: int]
   \<and> 2 \<notin> set [0 :: int]
   \<and> int (length [0, 1 :: int]) - int 0 < 3
   \<and> length [0, 1 :: int] < 3
   \<and> scan_loop demo_env [0, 300000000] [0, 1] 0 [] = Inr []
   \<and> scan_events demo_env [0, 300000000] [0, 1] [] = Inr []
   \<and> scan_events demo_env ([0, 300000000] @ [600000000]) ([0, 1] @ [0]) []
       = scan_events demo_env [0, 300000000] [0, 1] []"
  using trailing_fragment_dropped
    [of "[0, 300000000]" "[0, 1]" "[600000000]" "[0]" 0 demo_env "[]"]
  by simp

text \<open>
  Claim C9. The scan loop terminates on every event sequence. An iteration that
  returns moves the cursor forward, by 3 on a matched triple (emitted or filtered) and
  by 1 otherwise, never beyond the length of the sequence, so the distance to the end
  decreases; and the loop run with \<open>length events + 1\<close> iterations of fuel has
  finished, with the result of the scan (a row list, or the exception of an iteration).
\<close>

theorem scan_terminates:
  "(loop_cond events i \<and> scan_step e tms events (i, rows) = Inr (i', rows') \<longrightarrow>
      i' = (if is_triple events i then i + 3 else i + 1)
      \<and> i < i' \<and> i' \<le> length events
      \<and> length events - i' < length events - i)
   \<and> scan_fuel (length events + 1) e tms events 0 rows0
       = Some (scan_events e tms events rows0)"
proof -
  have "i' = (if is_triple events i then i + 3 else i + 1)"
    if "scan_step e tms events (i, rows) = Inr (i', rows')"
    using that by (auto simp: scan_step_def split: if_splits sum.splits)
  moreover have "scan_fuel (length events + 1) e tms events 0 rows0
       = Some (scan_events e tms events rows0)"
    by (simp only: scan_events_def) (rule scan_fuel_enough, simp)
  ultimately show ?thesis
    by (auto simp: loop_cond_iff)
qed

theorem scan_terminates_witness:
  "loop_cond [0, 1, 2] 0
   \<and> scan_step demo_env [0, 300000000, 600000000] [0, 1, 2] (0, [])
       = Inr (3, [row_at demo_env [0, 300000000, 600000000] 0])
   \<and> (3 :: nat) = (if is_triple [0, 1, 2] 0 then 0 + 3 else 0 + 1)
   \<and> (0 :: nat) < 3 \<and> 3 \<le> length [0, 1, 2 :: int]
   \<and> length [0, 1, 2 :: int] - 3 < length [0, 1, 2 :: int] - 0
   \<and> scan_fuel (length [0, 1, 2 :: int] + 1) demo_env [0, 300000000, 600000000] [0, 1, 2] 0 []
       = Some (scan_events demo_env [0, 300000000, 600000000] [0, 1, 2] [])"
proof -
  have lc: "loop_cond [0, 1, 2] 0" by (simp add: loop_cond_def)
  have st: "scan_step demo_env [0, 300000000, 600000000] [0, 1, 2] (0, [])
       = Inr (3, [row_at demo_env [0, 300000000, 600000000] 0])"
    by (simp add: scan_step_def is_triple_def getitem_def total_seconds_def demo_env_def
        row_at_def)
  from lc st scan_terminates [of "[0, 1, 2]" 0 demo_env "[0, 300000000, 600000000]" "[]" 3
      "[row_at demo_env [0, 300000000, 600000000] 0]" "[]"]
  show ?thesis by simp
qed



text \<open>
  Claim C1, as stated, fails: the scan raises nothing on a triple whose set instant is
  ten seconds before its rise instant. With the minimum duration 0 the triple is below
  the threshold and is dropped, and the scan returns the empty row list.
\<close>

theorem negative_duration_not_raised:
  "is_triple [0, 1, 2] 0
   \<and> total_seconds (0 - 10000000) < 0
   \<and> scan_events demo_env [10000000, 5000000, 0] [0, 1, 2] [] = Inr []"
  by (simp add: is_triple_def total_seconds_def scan_events_def scan_loop_unfold
      loop_cond_def demo_env_def scan_loop_stop)

text \<open>
  Claim C1, amended. The scan raises on no event sequence, well-formed or malformed
  (the instants and the event codes being arrays of one length): it returns a row
  list. A matched triple of negative duration is dropped by the minimum-duration
  filter whenever the minimum duration is not negative: the iteration moves the cursor
  by 3, appends no row and raises nothing.
\<close>

theorem scan_never_raises:
  "(length tms = length events \<longrightarrow> (\<exists>rows'. scan_events e tms events rows = Inr rows'))
   \<and> (length tms = length events \<and> loop_cond events i \<and> is_triple events i
        \<and> total_seconds (tms ! (i + 2) - tms ! i) < 0 \<and> 0 \<le> env_min_dur e \<longrightarrow>
      scan_step e tms events (i, rows) = Inr (i + 3, rows)
      \<and> scan_loop e tms events i rows = scan_loop e tms events (i + 3) rows)"
proof -
  have a: "\<exists>rows'. scan_events e tms events rows = Inr rows'" if "length tms = length events"
    using scan_loop_returns [OF that] by (simp add: scan_events_def)
  have b: "scan_step e tms events (i, rows) = Inr (i + 3, rows)"
    if "length tms = length events" "loop_cond events i" "is_triple events i"
      "total_seconds (tms ! (i + 2) - tms ! i) < 0" "0 \<le> env_min_dur e"
    using that by (simp add: scan_step_in_range)
  have c: "scan_loop e tms events i rows = scan_loop e tms events (i + 3) rows"
    if "length tms = length events" "loop_cond events i" "is_triple events i"
      "total_seconds (tms ! (i + 2) - tms ! i) < 0" "0 \<le> env_min_dur e"
    using that by (subst scan_loop_unfold [OF that(1)]) simp
  from a b c show ?thesis by blast
qed

theorem scan_never_raises_witness:
  "length [10000000, 5000000, 0 :: int] = length [0, 1, 2 :: int]
   \<and> loop_cond [0, 1, 2] 0 \<and> is_triple [0, 1, 2] 0
   \<and> total_seconds ([10000000, 5000000, 0] ! (0 + 2) - [10000000, 5000000, 0] ! 0) < 0
   \<and> 0 \<le> env_min_dur demo_env
   \<and> (\<exists>rows'. scan_events demo_env [10000000, 5000000, 0] [0, 1, 2] [] = Inr rows')
   \<and> scan_step demo_env [10000000, 5000000, 0] [0, 1, 2] (0, []) = Inr (0 + 3, [])"
proof -
  have "loop_cond [0, 1, 2] 0" by (simp add: loop_cond_def)
  moreover have "is_triple [0, 1, 2] 0" by (simp add: is_triple_def)
  moreover have "total_seconds ([10000000, 5000000, 0] ! (0 + 2) - [10000000, 5000000, 0] ! 0) < 0"
    by (simp add: total_seconds_def)
  moreover have "0 \<le> env_min_dur demo_env" by (simp add: demo_env_def)
  ultimately show ?thesis
    using scan_never_raises [where tms = "[10000000, 5000000, 0]" and events = "[0, 1, 2]"
        and e = demo_env and rows = "[]" and i = 0]
    by simp
qed

lemma round_half_even_ge_floor: "\<lfloor>y\<rfloor> \<le> round_half_even y"
  by (simp add: round_half_even_def Let_def)

lemma round_half_even_lower: "y - 1 / 2 \<le> of_int (round_half_even y)"
proof -
  have "y - of_int \<lfloor>y\<rfloor> < 1" by linarith
  then show ?thesis
    by (auto simp: round_half_even_def Let_def not_less) 
qed

lemma py_round1_lower: "x - 1 / 20 \<le> py_round x 1"
proof -
  have "x * 10 - 1 / 2 \<le> of_int (round_half_even (x * 10))"
    by (rule round_half_even_lower)
  then show ?thesis by (simp add: py_round_def field_simps)
qed

lemma py_round1_tenths:
  assumes "of_int k / 10 \<le> x"
  shows "of_int k / 10 \<le> py_round x 1"
proof -
  from assms have "of_int k \<le> x * 10" by (simp add: field_simps)
  then have "k \<le> \<lfloor>x * 10\<rfloor>" by (simp add: le_floor_iff)
  also have "\<dots> \<le> round_half_even (x * 10)" by (rule round_half_even_ge_floor)
  finally have "(of_int k :: rat) \<le> of_int (round_half_even (x * 10))" by simp
  then show ?thesis by (simp add: py_round_def field_simps)
qed

lemma mk_row_fields:
  "satellite (mk_row e t_rise t_culm t_set) = env_sat_name e"
  "station (mk_row e t_rise t_culm t_set) = env_station e"
  "aos_utc (mk_row e t_rise t_culm t_set) = utc_iso t_rise"
  "los_utc (mk_row e t_rise t_culm t_set) = utc_iso t_set"
  "duration_s (mk_row e t_rise t_culm t_set) = py_round (total_seconds (t_set - t_rise)) 1"
  "data_mb_est (mk_row e t_rise t_culm t_set)
     = py_round (mb_from_mbps (env_downlink e) (total_seconds (t_set - t_rise))
         (env_efficiency e)) 2"
  by (simp_all add: mk_row_def Let_def)

lemma scan_step_invariant:
  assumes mk: "\<And>t_rise t_culm t_set.
      \<not> total_seconds (t_set - t_rise) < env_min_dur e \<Longrightarrow> Q (mk_row e t_rise t_culm t_set)"
    and inv: "\<forall>r \<in> set rows. Q r"
    and st: "scan_step e tms events (i, rows) = Inr (i', rows')"
  shows "\<forall>r \<in> set rows'. Q r"
  using st inv mk
  by (auto simp: scan_step_def split: if_splits sum.splits)

lemma scan_loop_invariant:
  assumes mk: "\<And>t_rise t_culm t_set.
      \<not> total_seconds (t_set - t_rise) < env_min_dur e \<Longrightarrow> Q (mk_row e t_rise t_culm t_set)"
    and inv: "\<forall>r \<in> set rows. Q r"
    and res: "scan_loop e tms events i rows = Inr rows'"
  shows "\<forall>r \<in> set rows'. Q r"
  using inv res mk
proof (induction e tms events i rows rule: scan_loop.induct)
  case (1 e tms events i rows)
  show ?case
  proof (cases "loop_cond events i")
    case False
    with "1.prems" show ?thesis by (simp add: scan_loop_stop)
  next
    case True
    from True "1.prems"(2) obtain i' rows1
      where st: "scan_step e tms events (i, rows) = Inr (i', rows1)"
        and rest: "scan_loop e tms events i' rows1 = Inr rows'"
      by (subst (asm) scan_loop.simps) (auto split: sum.splits)
    have "\<forall>r \<in> set rows1. Q r"
      using scan_step_invariant [OF "1.prems"(3) "1.prems"(1) st] .
    from "1.IH" [OF True st refl this rest "1.prems"(3)] show ?thesis .
  qed
qed

lemma station_loop_invariant:
  assumes mk: "\<And>gs t_rise t_culm t_set.
      \<not> total_seconds (t_set - t_rise) < run_min_dur p \<Longrightarrow>
        Q (mk_row (pair_env sky p sat gs) t_rise t_culm t_set)"
    and inv: "\<forall>r \<in> set rows. Q r"
    and res: "station_loop sky p sat gss rows = Inr rows'"
  shows "\<forall>r \<in> set rows'. Q r"
  using inv res
proof (induction gss arbitrary: rows)
  case Nil
  then show ?case by simp
next
  case (Cons gs gss)
  obtain tms events where fe:
    "find_events sky sat gs (run_t0 p) (run_t1 p) (mask_of gs) = (tms, events)"
    by (cases "find_events sky sat gs (run_t0 p) (run_t1 p) (mask_of gs)")
  from Cons.prems(2) fe obtain rows1
    where sc: "scan_loop (pair_env sky p sat gs) tms events 0 rows = Inr rows1"
      and rest: "station_loop sky p sat gss rows1 = Inr rows'"
    by (auto simp: scan_events_def split: sum.splits)
  have "\<forall>r \<in> set rows1. Q r"
  proof (rule scan_loop_invariant [OF _ Cons.prems(1) sc])
    fix t_rise t_culm t_set :: int
    assume "\<not> total_seconds (t_set - t_rise) < env_min_dur (pair_env sky p sat gs)"
    then show "Q (mk_row (pair_env sky p sat gs) t_rise t_culm t_set)"
      using mk by (simp add: pair_env_def)
  qed
  from Cons.IH [OF this rest] show ?case .
qed

lemma satellite_loop_invariant:
  assumes mk: "\<And>sat gs t_rise t_culm t_set.
      \<not> total_seconds (t_set - t_rise) < run_min_dur p \<Longrightarrow>
        Q (mk_row (pair_env sky p sat gs) t_rise t_culm t_set)"
    and inv: "\<forall>r \<in> set rows. Q r"
    and res: "satellite_loop sky p scs gss rows = Inr rows'"
  shows "\<forall>r \<in> set rows'. Q r"
  using inv res
proof (induction scs arbitrary: rows)
  case Nil
  then show ?case by simp
next
  case (Cons sc scs)
  from Cons.prems(2) obtain sat rows1
    where st: "station_loop sky p sat gss rows = Inr rows1"
      and rest: "satellite_loop sky p scs gss rows1 = Inr rows'"
    by (auto split: sum.splits)
  have "\<forall>r \<in> set rows1. Q r"
    using station_loop_invariant [OF mk Cons.prems(1) st] .
  from Cons.IH [OF this rest] show ?case .
qed

lemma compute_passes_invariant:
  assumes mk: "\<And>e t_rise t_culm t_set.
      env_min_dur e = min_dur_s c \<Longrightarrow> env_downlink e = link_downlink_mbps c \<Longrightarrow>
      env_efficiency e = link_efficiency c \<Longrightarrow>
      \<not> total_seconds (t_set - t_rise) < min_dur_s c \<Longrightarrow> Q (mk_row e t_rise t_culm t_set)"
    and res: "compute_passes lib sky c = Inr df"
  shows "\<forall>r \<in> set df. Q r"
proof -
  from res obtain t0 t1 where sl0:
    "satellite_loop sky
       \<lparr> run_t0 = t0, run_t1 = t1, run_downlink = link_downlink_mbps c,
         run_efficiency = link_efficiency c, run_min_dur = min_dur_s c \<rparr>
       (satellites c) (ground_stations c) [] = Inr df"
    by (auto simp: compute_passes_def split: sum.splits)
  define p where "p = \<lparr> run_t0 = t0, run_t1 = t1, run_downlink = link_downlink_mbps c,
         run_efficiency = link_efficiency c, run_min_dur = min_dur_s c \<rparr>"
  have p: "run_min_dur p = min_dur_s c"
      "run_downlink p = link_downlink_mbps c" "run_efficiency p = link_efficiency c"
    by (simp_all add: p_def)
  have sl: "satellite_loop sky p (satellites c) (ground_stations c) [] = Inr df"
    using sl0 by (simp add: p_def)
  show ?thesis
  proof (rule satellite_loop_invariant [OF _ _ sl])
    show "\<forall>r \<in> set []. Q r" by simp
  next
    fix sat gs and t_rise t_culm t_set :: int
    assume "\<not> total_seconds (t_set - t_rise) < run_min_dur p"
    with p show "Q (mk_row (pair_env sky p sat gs) t_rise t_culm t_set)"
      by (intro mk) (simp_all add: pair_env_def)
  qed
qed


text \<open>
  Claim C2, as stated, fails: the filter compares the duration before rounding, and
  the row stores it rounded to one decimal. With the minimum duration 60.04 s, a pass
  of exactly 60.04 s is kept, and its \<open>duration_s\<close> is 60.0, below the minimum.
\<close>

theorem rounded_duration_below_minimum:
  "compute_passes demo_lib (demo_sky 60040000) (demo_cfg (Some (1501 / 25)))
     = Inr [\<lparr> satellite = Some ''SAT-1'', station = ''GS-1'', mask_deg = 10,
              aos_utc = 63839667600, los_utc = 63839667660, duration_s = 60,
              max_elev_deg = 45, downlink_mbps = 10, efficiency = 4 / 5,
              data_mb_est = 1501 / 25 \<rparr>]
   \<and> min_dur_s (demo_cfg (Some (1501 / 25))) = 1501 / 25
   \<and> (0 :: rat) \<le> 1501 / 25 \<and> (60 :: rat) < 1501 / 25"
  by code_simp

text \<open>
  Claim C2, amended. Every row of the catalog stores the one-decimal rounding of a
  duration (set minus rise) that is not below the configured minimum; so its
  \<open>duration_s\<close> is at least the minimum less 0.05, and at least the minimum when the
  minimum is a whole number of tenths of a second. An iteration that finds a matched
  triple below the minimum moves the cursor by 3 and appends nothing, and the scan
  goes on behind the triple.
\<close>

theorem short_passes_filtered:
  "(compute_passes lib sky c = Inr df \<and> r \<in> set df \<longrightarrow>
      (\<exists>raw. min_dur_s c \<le> raw \<and> duration_s r = py_round raw 1)
      \<and> min_dur_s c - 1 / 20 \<le> duration_s r
      \<and> (min_dur_s c = of_int k / 10 \<longrightarrow> min_dur_s c \<le> duration_s r))
   \<and> (length tms = length events \<and> loop_cond events i \<and> is_triple events i
        \<and> total_seconds (tms ! (i + 2) - tms ! i) < env_min_dur e \<longrightarrow>
      scan_step e tms events (i, rows) = Inr (i + 3, rows)
      \<and> scan_loop e tms events i rows = scan_loop e tms events (i + 3) rows)"
proof -
  let ?Q = "\<lambda>r. \<exists>raw. min_dur_s c \<le> raw \<and> duration_s r = py_round raw 1"
  have q: "?Q r" if res: "compute_passes lib sky c = Inr df" and r: "r \<in> set df"
  proof -
    have "\<forall>r \<in> set df. ?Q r"
    proof (rule compute_passes_invariant [OF _ res])
      fix e :: scan_env and t_rise t_culm t_set :: int
      assume "\<not> total_seconds (t_set - t_rise) < min_dur_s c"
      then have "min_dur_s c \<le> total_seconds (t_set - t_rise)" by simp
      moreover have "duration_s (mk_row e t_rise t_culm t_set)
          = py_round (total_seconds (t_set - t_rise)) 1"
        by (simp only: mk_row_fields)
      ultimately show "?Q (mk_row e t_rise t_culm t_set)" by blast
    qed
    with r show ?thesis by blast
  qed
  have a: "min_dur_s c - 1 / 20 \<le> duration_s r" if "?Q r"
  proof -
    from that obtain raw where "min_dur_s c \<le> raw" "duration_s r = py_round raw 1" by blast
    with py_round1_lower [of raw] show ?thesis by simp
  qed
  have b: "min_dur_s c \<le> duration_s r" if "?Q r" "min_dur_s c = of_int k / 10"
  proof -
    from that obtain raw where "of_int k / 10 \<le> raw" "duration_s r = py_round raw 1" by auto
    with py_round1_tenths [of k raw] that(2) show ?thesis by simp
  qed
  have s1: "scan_step e tms events (i, rows) = Inr (i + 3, rows)"
    if "length tms = length events" "loop_cond events i" "is_triple events i"
      "total_seconds (tms ! (i + 2) - tms ! i) < env_min_dur e"
    using that by (simp add: scan_step_in_range)
  have s2: "scan_loop e tms events i rows = scan_loop e tms events (i + 3) rows"
    if "length tms = length events" "loop_cond events i" "is_triple events i"
      "total_seconds (tms ! (i + 2) - tms ! i) < env_min_dur e"
    using that by (subst scan_loop_unfold [OF that(1)]) simp
  from q a b s1 s2 show ?thesis by blast
qed

theorem short_passes_filtered_witness:
  "compute_passes demo_lib (demo_sky 600000000) (demo_cfg (Some 60))
     = Inr [\<lparr> satellite = Some ''SAT-1'', station = ''GS-1'', mask_deg = 10,
              aos_utc = 63839667600, los_utc = 63839668200, duration_s = 600,
              max_elev_deg = 45, downlink_mbps = 10, efficiency = 4 / 5,
              data_mb_est = 600 \<rparr>]
   \<and> min_dur_s (demo_cfg (Some 60)) = of_int 600 / 10
   \<and> min_dur_s (demo_cfg (Some 60)) \<le> 600
   \<and> length [0, 30000000, 50000000 :: int] = length [0, 1, 2 :: int]
   \<and> loop_cond [0, 1, 2] 0 \<and> is_triple [0, 1, 2] 0
   \<and> total_seconds ([0, 30000000, 50000000] ! (0 + 2) - [0, 30000000, 50000000] ! 0)
        < env_min_dur (demo_env\<lparr>env_min_dur := 60\<rparr>)
   \<and> scan_step (demo_env\<lparr>env_min_dur := 60\<rparr>) [0, 30000000, 50000000] [0, 1, 2] (0, [])
        = Inr (0 + 3, [])"
proof -
  let ?r = "\<lparr> satellite = Some ''SAT-1'', station = ''GS-1'', mask_deg = 10,
              aos_utc = 63839667600, los_utc = 63839668200, duration_s = 600,
              max_elev_deg = 45, downlink_mbps = 10, efficiency = 4 / 5,
              data_mb_est = 600 \<rparr>"
  have c: "compute_passes demo_lib (demo_sky 600000000) (demo_cfg (Some 60)) = Inr [?r]"
    by code_simp
  have m: "min_dur_s (demo_cfg (Some 60)) = of_int 600 / 10"
    by (simp add: min_dur_s_def demo_cfg_def)
  have l: "loop_cond [0, 1, 2] 0" by (simp add: loop_cond_def)
  have t: "is_triple [0, 1, 2] 0" by (simp add: is_triple_def)
  have d: "total_seconds ([0, 30000000, 50000000] ! (0 + 2) - [0, 30000000, 50000000] ! 0)
        < env_min_dur (demo_env\<lparr>env_min_dur := 60\<rparr>)"
    by (simp add: total_seconds_def)
  from c m l t d
    short_passes_filtered [where lib = demo_lib and sky = "demo_sky 600000000"
      and c = "demo_cfg (Some 60)" and df = "[?r]" and r = ?r and k = 600
      and tms = "[0, 30000000, 50000000]" and events = "[0, 1, 2]" and i = 0
      and e = "demo_env\<lparr>env_min_dur := 60\<rparr>" and rows = "[]"]
  show ?thesis by simp
qed






lemma emitted_at_matched:
  "p \<in> set (emitted_at e tms events i) \<Longrightarrow>
     is_triple events p \<and> \<not> total_seconds (tms ! (p + 2) - tms ! p) < env_min_dur e"
proof (induction e tms events i rule: emitted_at.induct)
  case (1 e tms events i)
  show ?case
  proof (cases "loop_cond events i")
    case False
    with "1.prems" show ?thesis by (subst (asm) emitted_at.simps) simp
  next
    case lc: True
    show ?thesis
    proof (cases "is_triple events i")
      case False
      with lc "1.prems" have "p \<in> set (emitted_at e tms events (i + 1))"
        by (subst (asm) emitted_at.simps) simp
      from "1.IH"(3) [OF lc False this] show ?thesis .
    next
      case tr: True
      show ?thesis
      proof (cases "total_seconds (tms ! (i + 2) - tms ! i) < env_min_dur e")
        case True
        with lc tr "1.prems" have "p \<in> set (emitted_at e tms events (i + 3))"
          by (subst (asm) emitted_at.simps) simp
        from "1.IH"(1) [OF lc tr True this] show ?thesis .
      next
        case False
        with lc tr "1.prems" have "p = i \<or> p \<in> set (emitted_at e tms events (i + 3))"
          by (subst (asm) emitted_at.simps) simp
        then show ?thesis
        proof
          assume "p = i"
          with tr False show ?thesis by simp
        next
          assume "p \<in> set (emitted_at e tms events (i + 3))"
          from "1.IH"(2) [OF lc tr False this] show ?thesis .
        qed
      qed
    qed
  qed
qed

lemma triples_distinct:
  "sorted_wrt (\<lambda>a b. a + 3 \<le> b) xs \<Longrightarrow>
     distinct (concat (map (\<lambda>a. [a, a + 1, a + 2]) (xs :: nat list)))"
  by (induction xs) fastforce+

lemma utc_iso_mono: "a \<le> b \<Longrightarrow> utc_iso a \<le> utc_iso b"
  by (simp add: utc_iso_def zdiv_mono1)

lemma row_at_times:
  "aos_utc (row_at e tms j) = utc_iso (tms ! j)"
  "los_utc (row_at e tms j) = utc_iso (tms ! (j + 2))"
  by (simp_all add: row_at_def mk_row_fields)

text \<open>
  Claim C10. The rows of one satellite/station pair are the rows of the triples at the
  emitting cursor positions, in the order of the positions. Each position is at least
  3 beyond the one before, so the index triples of two rows share no event, and each
  is a matched triple within the sequence. For instants in chronological order the
  rows are in non-decreasing order of rise, and each row sets no later than the next
  one rises.
\<close>

theorem passes_disjoint_and_ordered:
  assumes "length tms = length events"
  shows "scan_events e tms events [] = Inr (map (row_at e tms) (emitted_at e tms events 0))
    \<and> sorted_wrt (\<lambda>a b. a + 3 \<le> b) (emitted_at e tms events 0)
    \<and> distinct (concat (map (\<lambda>a. [a, a + 1, a + 2]) (emitted_at e tms events 0)))
    \<and> (\<forall>a \<in> set (emitted_at e tms events 0). a + 2 < length events \<and> is_triple events a)
    \<and> (sorted tms \<longrightarrow>
         sorted_wrt (\<lambda>r s. aos_utc r \<le> aos_utc s \<and> los_utc r \<le> aos_utc s)
           (map (row_at e tms) (emitted_at e tms events 0))
         \<and> (\<forall>r \<in> set (map (row_at e tms) (emitted_at e tms events 0)).
               aos_utc r \<le> los_utc r))"
proof -
  let ?ps = "emitted_at e tms events 0"
  have a: "scan_events e tms events [] = Inr (map (row_at e tms) ?ps)"
    using scan_loop_emitted [OF assms, of e 0 "[]"] by (simp add: scan_events_def)
  have b: "sorted_wrt (\<lambda>a b. a + 3 \<le> b) ?ps" by (rule emitted_at_gaps)
  have c: "distinct (concat (map (\<lambda>a. [a, a + 1, a + 2]) ?ps))"
    using b by (rule triples_distinct)
  have d: "\<forall>a \<in> set ?ps. a + 2 < length events \<and> is_triple events a"
    using emitted_at_lower [of _ e tms events 0] emitted_at_matched [of _ e tms events 0]
    by blast
  have f: "sorted_wrt (\<lambda>r s. aos_utc r \<le> aos_utc s \<and> los_utc r \<le> aos_utc s)
           (map (row_at e tms) ?ps)" if st: "sorted tms"
  proof -
    have "sorted_wrt (\<lambda>a b. aos_utc (row_at e tms a) \<le> aos_utc (row_at e tms b)
          \<and> los_utc (row_at e tms a) \<le> aos_utc (row_at e tms b)) ?ps"
    proof (rule sorted_wrt_mono_rel [OF _ b])
      fix a b assume ab: "a \<in> set ?ps" "b \<in> set ?ps" "a + 3 \<le> b"
      from ab(2) d assms have "b < length tms" by auto
      with st ab(3) have "tms ! a \<le> tms ! b" "tms ! (a + 2) \<le> tms ! b"
        by (auto intro: sorted_nth_mono)
      then show "aos_utc (row_at e tms a) \<le> aos_utc (row_at e tms b)
          \<and> los_utc (row_at e tms a) \<le> aos_utc (row_at e tms b)"
        by (simp add: row_at_times utc_iso_mono)
    qed
    then show ?thesis by (simp add: sorted_wrt_map)
  qed
  have g: "\<forall>r \<in> set (map (row_at e tms) ?ps). aos_utc r \<le> los_utc r" if st: "sorted tms"
  proof -
    have "aos_utc (row_at e tms a) \<le> los_utc (row_at e tms a)" if "a \<in> set ?ps" for a
    proof -
      from that d assms have "a + 2 < length tms" by auto
      with st have "tms ! a \<le> tms ! (a + 2)" by (auto intro: sorted_nth_mono)
      then show ?thesis by (simp add: row_at_times utc_iso_mono)
    qed
    then show ?thesis by auto
  qed
  from a b c d f g show ?thesis by blast
qed

theorem passes_disjoint_and_ordered_witness:
  "length [0, 300000000, 600000000, 900000000, 1200000000, 1500000000 :: int]
     = length [0, 1, 2, 0, 1, 2 :: int]
   \<and> sorted [0, 300000000, 600000000, 900000000, 1200000000, 1500000000 :: int]
   \<and> emitted_at demo_env [0, 300000000, 600000000, 900000000, 1200000000, 1500000000]
        [0, 1, 2, 0, 1, 2] 0 = [0, 3]
   \<and> scan_events demo_env [0, 300000000, 600000000, 900000000, 1200000000, 1500000000]
        [0, 1, 2, 0, 1, 2] []
      = Inr (map (row_at demo_env [0, 300000000, 600000000, 900000000, 1200000000, 1500000000])
          [0, 3])
   \<and> distinct (concat (map (\<lambda>a. [a, a + 1, a + 2]) [0, 3 :: nat]))
   \<and> sorted_wrt (\<lambda>r s. aos_utc r \<le> aos_utc s \<and> los_utc r \<le> aos_utc s)
        (map (row_at demo_env [0, 300000000, 600000000, 900000000, 1200000000, 1500000000])
           [0, 3])"
proof -
  let ?tms = "[0, 300000000, 600000000, 900000000, 1200000000, 1500000000 :: int]"
  let ?ev = "[0, 1, 2, 0, 1, 2 :: int]"
  have l: "length ?tms = length ?ev" by simp
  have s: "sorted ?tms" by simp
  have em: "emitted_at demo_env ?tms ?ev 0 = [0, 3]" by code_simp
  from passes_disjoint_and_ordered [OF l, of demo_env] s l
  show ?thesis by (simp only: em)
qed

section \<open>Properties of the utilities and the satellite resolution\<close>











section \<open>Properties of the aggregation\<close>

lemma add_measures_zero [simp]: "add_measures (0, 0, 0) a = a" "add_measures a (0, 0, 0) = a"
  by (simp_all add: add_measures_def split: prod.splits)


lemma sum_measures_simps [simp]:
  "sum_measures [] = (0, 0, 0)"
  "sum_measures (a # ms) = add_measures a (sum_measures ms)"
  by (simp_all add: sum_measures_def add_measures_def split: prod.splits)



























end
